theory Spec2Isabelle
  imports Complex_Main "HOL-Library.AList" "HOL-Library.Multiset"
begin

section \<open>The data aggregator agent (agents/aggregator/aggregator_agent.py)\<close>

text \<open>
  The embedding follows class \<open>DataAggregator\<close>.  Python values that reach the
  aggregator through a feed are either a data point (a dict from timestream name to
  a pair (timestamp, reading)) or a list of such values; a dict is kept as the list of
  its items in insertion order.  A Python float is taken as the real number it denotes;
  where the code computes with floats (the subtraction in its two tests of elapsed time),
  the result is rounded as IEEE 754 binary64 arithmetic rounds it.
\<close>

subsection \<open>Values, errors, frames\<close>

datatype pyval = Dict "(string \<times> (real \<times> real)) list" | List "pyval list"

datatype error = KeyError string | ValueError | TypeError | AttributeError

text \<open>
  A G3Frame as the agent fills it: a housekeeping frame carries the keys
  \<open>agent_address\<close>, \<open>feed\<close>, \<open>TODs\<close> and \<open>Timestamps\<close>; the frame that ends a file
  carries nothing.
\<close>

datatype frame =
  Housekeeping (agent_address: string) (feed: string)
    (TODs: "(string \<times> real list) list") (Timestamps: "(string \<times> real list) list")
  | EndProcessing

text \<open>The metadata that comes with every delivery: \<open>feed["address"]\<close>,
  \<open>feed["buffered"]\<close>, \<open>feed["buffer_time"]\<close>.\<close>

record feed_info =
  address :: string
  buffered :: bool
  buffer_time :: real

text \<open>
  The fields of \<open>DataAggregator\<close>.  \<open>g3file\<close> (the field \<open>file\<close>) is the open G3Writer, kept as the list of
  frames handed to it so far (\<open>None\<close> before the first file).  Two fields stand for the
  world around the object: \<open>registered\<close> lists the calls of \<open>agent.subscribe_to_feed\<close>,
  and \<open>segments\<close> keeps what was handed to the writers that \<open>start_file\<close> has replaced.
\<close>

record aggregator =
  subscribed_feeds :: "string list"
  buffers :: "(string \<times> pyval list) list"
  buffer_start_times :: "(string \<times> real) list"
  aggregate :: bool
  filename :: string
  g3file :: "frame list option"
  registered :: "(string \<times> string) list"
  segments :: "frame list list"

definition init :: aggregator where
  "init = \<lparr> subscribed_feeds = [], buffers = [], buffer_start_times = [],
            aggregate = False, filename = [], g3file = None,
            registered = [], segments = [] \<rparr>"

subsection \<open>Strings\<close>

text \<open>Python's \<open>s.split(sep)\<close> for a non-empty separator: the pieces between the
  occurrences of \<open>sep\<close>, found from the left without overlap.\<close>

fun split_acc :: "string \<Rightarrow> string \<Rightarrow> string \<Rightarrow> string list" where
  "split_acc sep acc [] = [rev acc]"
| "split_acc sep acc (c # cs) =
     (if sep \<noteq> [] \<and> take (length sep) (c # cs) = sep
      then rev acc # split_acc sep [] (drop (length sep - 1) cs)
      else split_acc sep (c # acc) cs)"

definition py_split :: "string \<Rightarrow> string \<Rightarrow> string list" where
  "py_split sep s = split_acc sep [] s"

text \<open>\<open>"{}.feeds.{}".format(agent_address, feed_name)\<close>\<close>

definition feed_address_of :: "string \<Rightarrow> string \<Rightarrow> string" where
  "feed_address_of agent_addr feed_name = agent_addr @ ''.feeds.'' @ feed_name"

subsection \<open>Floats\<close>

text \<open>Rounding a real to the nearest integer, a tie going to the even one.\<close>

definition round_even :: "real \<Rightarrow> int" where
  "round_even x =
     (let n = \<lfloor>x\<rfloor>; r = x - of_int n in
      if r < 1 / 2 then n else if 1 / 2 < r then n + 1 else if even n then n else n + 1)"

text \<open>
  Rounding to binary64: a double is \<open>m * 2 ^ e\<close> with \<open>\<bar>m\<bar> < 2 ^ 53\<close> and \<open>- 1074 \<le> e\<close>.
  \<open>round_small y e\<close> is the double nearest to \<open>y * 2 ^ e\<close>, divided by \<open>2 ^ e\<close>: \<open>y\<close> is
  doubled until 53 bits stand before the point or the smallest exponent is reached, and
  is rounded to an integer there.  \<open>round_large\<close> halves a number that has more than 53
  bits before the point.
\<close>

function round_small :: "real \<Rightarrow> int \<Rightarrow> real" where
  "round_small y e =
     (if \<bar>y\<bar> < 2 ^ 52 \<and> - 1074 < e then round_small (2 * y) (e - 1) / 2
      else of_int (round_even y))"
  by auto
termination
  by (relation "measure (\<lambda>(y, e). nat (e + 1074))") auto

function round_large :: "real \<Rightarrow> real" where
  "round_large y =
     (if 2 ^ 53 \<le> \<bar>y\<bar> then 2 * round_large (y / 2) else of_int (round_even y))"
  by auto
termination
proof (relation "measure (\<lambda>y. nat \<lfloor>\<bar>y\<bar>\<rfloor>)")
  show "wf (measure (\<lambda>y. nat \<lfloor>\<bar>y\<bar>\<rfloor>))" by simp
next
  fix y :: real
  assume a: "2 ^ 53 \<le> \<bar>y\<bar>"
  then have "\<bar>y\<bar> / 2 \<le> \<bar>y\<bar> - 1" by simp
  then have "\<lfloor>\<bar>y\<bar> / 2\<rfloor> \<le> \<lfloor>\<bar>y\<bar> - 1\<rfloor>" by (rule floor_mono)
  then have "\<lfloor>\<bar>y / 2\<bar>\<rfloor> < \<lfloor>\<bar>y\<bar>\<rfloor>" by simp
  moreover have "0 < \<lfloor>\<bar>y\<bar>\<rfloor>" using a by simp
  ultimately show "(y / 2, y) \<in> measure (\<lambda>y. nat \<lfloor>\<bar>y\<bar>\<rfloor>)" by simp
qed

declare round_small.simps [simp del] round_large.simps [simp del]

definition round_double :: "real \<Rightarrow> real" where
  "round_double x = (if \<bar>x\<bar> < 2 ^ 52 then round_small x 0 else round_large x)"

text \<open>
  The test \<open>x - y > limit\<close> on the floats \<open>x\<close> and \<open>y\<close>: the difference is rounded to
  binary64, and a difference that rounds beyond the largest double is \<open>inf\<close> or \<open>-inf\<close>.
  The comparison itself is exact in Python, also between a float and an int.
\<close>

definition float_sub_gt :: "real \<Rightarrow> real \<Rightarrow> real \<Rightarrow> bool" where
  "float_sub_gt x y limit =
     (let d = round_double (x - y) in
      if 2 ^ 1024 \<le> d then True else if d \<le> - (2 ^ 1024) then False else limit < d)"

subsection \<open>write_frame_to_file\<close>

text \<open>
  The body of the inner loop: \<open>tods[key]\<close> and \<open>timestamps[key]\<close> get the reading
  \<open>val[1]\<close> and the time \<open>val[0]\<close> appended when \<open>key\<close> is in \<open>tods\<close>, and start as
  one-element lists otherwise.
\<close>

type_synonym tod_dicts = "(string \<times> real list) list \<times> (string \<times> real list) list"

definition add_val :: "string \<times> (real \<times> real) \<Rightarrow> tod_dicts \<Rightarrow> tod_dicts" where
  "add_val kv d =
     (case (kv, d) of ((key, val), (tods, timestamps)) \<Rightarrow>
        if key \<in> fst ` set tods
        then (AList.map_entry key (\<lambda>xs. xs @ [snd val]) tods,
              AList.map_entry key (\<lambda>xs. xs @ [fst val]) timestamps)
        else (AList.update key [snd val] tods, AList.update key [fst val] timestamps))"

text \<open>\<open>for key, val in data_point.items()\<close>: only a dict has \<open>items\<close>.\<close>

fun add_point :: "pyval \<Rightarrow> tod_dicts \<Rightarrow> error + tod_dicts" where
  "add_point (Dict items) d = Inr (fold add_val items d)"
| "add_point (List xs) d = Inl AttributeError"

text \<open>\<open>for data_point in buffer\<close>, over the elements in order.\<close>

fun add_points :: "pyval list \<Rightarrow> tod_dicts \<Rightarrow> error + tod_dicts" where
  "add_points [] d = Inr d"
| "add_points (p # ps) d =
     (case add_point p d of Inl e \<Rightarrow> Inl e | Inr d' \<Rightarrow> add_points ps d')"

text \<open>Iterating over a list gives its elements; iterating over a dict gives its
  keys, which are strings and have no \<open>items\<close>.\<close>

fun collect :: "pyval \<Rightarrow> error + tod_dicts" where
  "collect (List xs) = add_points xs ([], [])"
| "collect (Dict items) = (if items = [] then Inr ([], []) else Inl AttributeError)"

text \<open>
  The state is returned with the outcome, since what an operation did before it
  raised stays done.  The unpacking of the split address raises ValueError unless there
  are exactly two pieces; calling \<open>self.file\<close> raises TypeError while it is \<open>None\<close>.
\<close>

definition write_frame_to_file ::
  "string \<Rightarrow> pyval \<Rightarrow> aggregator \<Rightarrow> (error + unit) \<times> aggregator" where
  "write_frame_to_file feed_addr buffer s =
     (case py_split ''.feeds.'' feed_addr of
        [agent, fd] \<Rightarrow>
          (case collect buffer of
             Inl e \<Rightarrow> (Inl e, s)
           | Inr (tods, timestamps) \<Rightarrow>
               (case g3file s of
                  None \<Rightarrow> (Inl TypeError, s)
                | Some w \<Rightarrow>
                    (Inr (), s\<lparr> g3file := Some (w @ [Housekeeping agent fd tods timestamps]) \<rparr>)))
      | _ \<Rightarrow> (Inl ValueError, s))"

subsection \<open>Subscribing\<close>

definition add_feed :: "string \<Rightarrow> string \<Rightarrow> aggregator \<Rightarrow> aggregator" where
  "add_feed agent_addr feed_name s =
     (let feed_addr = feed_address_of agent_addr feed_name in
      if feed_addr \<in> set (subscribed_feeds s) then s
      else s\<lparr> registered := registered s @ [(agent_addr, feed_name)],
              subscribed_feeds := subscribed_feeds s @ [feed_addr],
              buffers := AList.update feed_addr [] (buffers s) \<rparr>)"

text \<open>The task takes its parameters from a dict (\<open>None\<close> stands for no dict at all);
  a missing key raises KeyError.\<close>

definition add_feed_task ::
  "(string \<rightharpoonup> string) option \<Rightarrow> aggregator \<Rightarrow> (error + bool \<times> string) \<times> aggregator" where
  "add_feed_task params0 s =
     (let params = (case params0 of None \<Rightarrow> Map.empty | Some p \<Rightarrow> p) in
      case params ''agent_address'' of
        None \<Rightarrow> (Inl (KeyError ''agent_address''), s)
      | Some agent_addr \<Rightarrow>
          (case params ''feed_name'' of
             None \<Rightarrow> (Inl (KeyError ''feed_name''), s)
           | Some feed_name \<Rightarrow>
               (let feed_addr = feed_address_of agent_addr feed_name in
                if feed_addr \<in> set (subscribed_feeds s)
                then (Inr (False, ''Already subscribed to feed '' @ feed_addr), s)
                else (Inr (True, ''Subscribed to data feeds.''), add_feed agent_addr feed_name s))))"

subsection \<open>The data handler\<close>

text \<open>
  \<open>_data_handler\<close>, the callback that \<open>add_feed\<close> registers.  It receives the pair \<open>_data\<close> =
  \<open>(data, feed)\<close>; \<open>current_time\<close> is what \<open>time.time()\<close> returns in the call.
  \<open>self.buffers[addr]\<close> and \<open>self.buffer_start_times[addr]\<close> raise KeyError when the
  key is missing.
\<close>

definition data_handler ::
  "pyval \<times> feed_info \<Rightarrow> real \<Rightarrow> aggregator \<Rightarrow> (error + unit) \<times> aggregator" where
  "data_handler msg current_time s =
     (if \<not> aggregate s then (Inr (), s)
      else case msg of (data, fd) \<Rightarrow>
        let addr = address fd in
        if buffered fd then write_frame_to_file addr data s
        else
          (case map_of (buffers s) addr of
             None \<Rightarrow> (Inl (KeyError addr), s)
           | Some buf \<Rightarrow>
               let s1 = (if buf = []
                         then s\<lparr> buffer_start_times :=
                                  AList.update addr current_time (buffer_start_times s) \<rparr>
                         else s)
               in
               (case map_of (buffer_start_times s1) addr of
                  None \<Rightarrow> (Inl (KeyError addr), s1)
                | Some start \<Rightarrow>
                    (case (if float_sub_gt current_time start (buffer_time fd)
                           then (case write_frame_to_file addr (List buf) s1 of
                                   (Inl e, s2) \<Rightarrow> (Inl e, s2)
                                 | (Inr u, s2) \<Rightarrow>
                                     (Inr (),
                                      s2\<lparr> buffer_start_times :=
                                             AList.update addr current_time (buffer_start_times s2),
                                           buffers := AList.update addr [] (buffers s2) \<rparr>))
                           else (Inr (), s1)) of
                       (Inl e, s3) \<Rightarrow> (Inl e, s3)
                     | (Inr u, s3) \<Rightarrow>
                         (Inr (),
                          s3\<lparr> buffers :=
                                 AList.map_entry addr (\<lambda>b. b @ [data]) (buffers s3) \<rparr>)))))"

subsection \<open>Files\<close>

text \<open>\<open>start_file\<close> puts a new G3Writer in \<open>self.file\<close>; what the writer it replaces
  had received stays in the world.\<close>

definition start_file :: "aggregator \<Rightarrow> aggregator" where
  "start_file s =
     s\<lparr> segments := segments s @ (case g3file s of None \<Rightarrow> [] | Some w \<Rightarrow> [w]),
        g3file := Some [] \<rparr>"

text \<open>The loop of \<open>end_file\<close> over \<open>self.buffers.items()\<close>: every non-empty buffer is
  written and then replaced by the empty list.\<close>

fun flush_buffers ::
  "(string \<times> pyval list) list \<Rightarrow> aggregator \<Rightarrow> (error + unit) \<times> aggregator" where
  "flush_buffers [] s = (Inr (), s)"
| "flush_buffers ((k, v) # kvs) s =
     (if v \<noteq> []
      then (case write_frame_to_file k (List v) s of
              (Inl e, s') \<Rightarrow> (Inl e, s')
            | (Inr u, s') \<Rightarrow> flush_buffers kvs (s'\<lparr> buffers := AList.update k [] (buffers s') \<rparr>))
      else flush_buffers kvs s)"

definition end_file :: "aggregator \<Rightarrow> (error + unit) \<times> aggregator" where
  "end_file s =
     (case flush_buffers (buffers s) s of
        (Inl e, s') \<Rightarrow> (Inl e, s')
      | (Inr u, s') \<Rightarrow>
          (case g3file s' of
             None \<Rightarrow> (Inl TypeError, s')
           | Some w \<Rightarrow> (Inr (), s'\<lparr> g3file := Some (w @ [EndProcessing]) \<rparr>)))"

subsection \<open>The aggregation process\<close>

text \<open>A value of the \<open>params\<close> dict of \<open>start_aggregate\<close>: a number or a string.\<close>

datatype param = Num real | Str string

text \<open>
  One reading of \<open>datetime.utcnow()\<close> as the loop uses it: \<open>timestamp\<close> is
  \<open>file_start_time.timestamp()\<close>, \<open>timestamp_str\<close> is \<open>str(ts)\<close>, and \<open>time_string\<close>
  is \<open>file_start_time.strftime("%Y-%m-%d-%H-%M-%S")\<close>.
\<close>

record reading =
  timestamp :: real
  timestamp_str :: string
  time_string :: string

text \<open>\<open>os.path.join\<close> of two components on a POSIX system.\<close>

definition path_join :: "string \<Rightarrow> string \<Rightarrow> string" where
  "path_join a b =
     (if take 1 b = ''/'' then b
      else if a = [] \<or> last a = CHR ''/'' then a @ b
      else a @ ''/'' @ b)"

text \<open>
  The body of \<open>if new_file_time:\<close>.  \<open>os.path.join\<close> raises TypeError when \<open>data_dir\<close> is
  not a string.  The directory is created on the way; the file system is not part of
  the model.
\<close>

definition new_file :: "param \<Rightarrow> reading \<Rightarrow> aggregator \<Rightarrow> (error + unit) \<times> aggregator" where
  "new_file data_dir file_start_time s =
     (case (if g3file s \<noteq> None then end_file s else (Inr (), s)) of
        (Inl e, s1) \<Rightarrow> (Inl e, s1)
      | (Inr u, s1) \<Rightarrow>
          (case data_dir of
             Num x \<Rightarrow> (Inl TypeError, s1)
           | Str d \<Rightarrow>
               (let sub_dir = path_join d (take 5 (timestamp_str file_start_time)) in
                (Inr (),
                 start_file
                   (s1\<lparr> filename :=
                          path_join sub_dir (time_string file_start_time @ ''.g3'') \<rparr>)))))"

definition stop_aggregate :: "aggregator \<Rightarrow> (bool \<times> string) \<times> aggregator" where
  "stop_aggregate s = ((True, ''Stopped aggregation''), s\<lparr> aggregate := False \<rparr>)"

text \<open>
  What reaches the object from other threads while the loop sleeps: a delivery to the
  data handler (with the time of its arrival) or the stop of the process.  An exception
  in the handler goes to the caller of the callback, not to the loop; the object stays as
  the handler left it.
\<close>

datatype event = Deliver pyval feed_info real | Stop

fun fire :: "event \<Rightarrow> aggregator \<Rightarrow> aggregator" where
  "fire (Deliver data fd current_time) s = snd (data_handler (data, fd) current_time s)"
| "fire Stop s = snd (stop_aggregate s)"

text \<open>
  One turn of \<open>while self.aggregate:\<close> takes from the world the reading of the clock
  used when a file is started, the events that arrive during \<open>time.sleep(.1)\<close>, and the
  reading of the clock in the test that follows the sleep.
\<close>

record turn =
  opened :: reading
  arrivals :: "event list"
  checked :: real

text \<open>
  The loop and the lines after it.  The result is \<open>None\<close> when the turns given are used
  up with \<open>self.aggregate\<close> still set (the loop would go on), \<open>Some (Inl e)\<close> when the
  process raised \<open>e\<close>, and \<open>Some (Inr r)\<close> when it returned \<open>r\<close>.  Comparing a float with
  a string raises TypeError.
\<close>

definition finish :: "aggregator \<Rightarrow> (error + bool \<times> string) option \<times> aggregator" where
  "finish s =
     (case end_file s of
        (Inl e, s') \<Rightarrow> (Some (Inl e), s')
      | (Inr u, s') \<Rightarrow> (Some (Inr (True, ''Acquisition exited cleanly.'')), s'))"

fun aggregate_loop ::
  "param \<Rightarrow> param \<Rightarrow> bool \<Rightarrow> real \<Rightarrow> turn list \<Rightarrow> aggregator
     \<Rightarrow> (error + bool \<times> string) option \<times> aggregator" where
  "aggregate_loop time_per_file data_dir new_file_time ts [] s =
     (if aggregate s then (None, s) else finish s)"
| "aggregate_loop time_per_file data_dir new_file_time ts (t # turns) s =
     (if aggregate s then
        (case (if new_file_time then new_file data_dir (opened t) s else (Inr (), s)) of
           (Inl e, s1) \<Rightarrow> (Some (Inl e), s1)
         | (Inr u, s1) \<Rightarrow>
             (let ts' = (if new_file_time then timestamp (opened t) else ts);
                  s2 = fold fire (arrivals t) s1
              in case time_per_file of
                   Str x \<Rightarrow> (Some (Inl TypeError), s2)
                 | Num limit \<Rightarrow>
                     aggregate_loop time_per_file data_dir (float_sub_gt (checked t) ts' limit) ts'
                       turns s2))
      else finish s)"

text \<open>
  \<open>start_aggregate\<close>: the parameters default to one hour per file, ten minutes per frame
  and the directory \<open>data/\<close>; \<open>time_per_frame\<close> is read and not used.  \<open>ts\<close> has no value
  before the first turn, which assigns it since \<open>new_file_time\<close> starts as True.
\<close>

definition start_aggregate ::
  "(string \<rightharpoonup> param) option \<Rightarrow> turn list \<Rightarrow> aggregator
     \<Rightarrow> (error + bool \<times> string) option \<times> aggregator" where
  "start_aggregate params0 turns s =
     (let params = (case params0 of None \<Rightarrow> Map.empty | Some p \<Rightarrow> p);
          time_per_file = (case params ''time_per_file'' of None \<Rightarrow> Num (60 * 60) | Some v \<Rightarrow> v);
          time_per_frame = (case params ''time_per_frame'' of None \<Rightarrow> Num (60 * 10) | Some v \<Rightarrow> v);
          data_dir = (case params ''data_dir'' of None \<Rightarrow> Str ''data/'' | Some v \<Rightarrow> v)
      in aggregate_loop time_per_file data_dir True 0 turns (s\<lparr> aggregate := True \<rparr>))"

subsection \<open>The scenario of the specification\<close>

text \<open>The feed \<open>dev1.feeds.therm\<close> with its two policies, and the aggregator after it has
  subscribed to the feed, set \<open>self.aggregate\<close> and opened its first file.\<close>

definition therm :: "bool \<Rightarrow> real \<Rightarrow> feed_info" where
  "therm b T = \<lparr> address = ''dev1.feeds.therm'', buffered = b, buffer_time = T \<rparr>"

definition recording :: aggregator where
  "recording = (start_file (add_feed ''dev1'' ''therm'' init))\<lparr> aggregate := True \<rparr>"

text \<open>
  A start of the process that fails: \<open>data_dir\<close> is the number 5, not a string.  The clock
  reads 0 when the first file is to be started.  \<open>stalled\<close> is the aggregator that the
  failed start leaves behind when it had subscribed to the feed: \<open>self.aggregate\<close> is set
  and no file was ever opened.
\<close>

definition first_turn :: turn where
  "first_turn = \<lparr> opened = \<lparr> timestamp = 0, timestamp_str = ''0.0'',
                               time_string = ''1970-01-01-00-00-00'' \<rparr>,
                   arrivals = [], checked = 0.1 \<rparr>"

definition stalled :: aggregator where
  "stalled = (add_feed ''dev1'' ''therm'' init)\<lparr> aggregate := True \<rparr>"

subsection \<open>Invariants\<close>

text \<open>Every subscribed address has an entry in the buffer map.\<close>

definition consistent :: "aggregator \<Rightarrow> bool" where
  "consistent s \<longleftrightarrow> set (subscribed_feeds s) \<subseteq> fst ` set (buffers s)"


text \<open>
  The aggregators that the methods of the class produce from a new object: by a
  subscription, by a delivery to the handler, by the assignment that starts the loop
  (l.269), by the stop of the process, by the start of a new file in the loop, and by
  \<open>end_file\<close>.  When a method raises, the object is as the method left it.
\<close>

inductive reachable :: "aggregator \<Rightarrow> bool" where
  r_init: "reachable init"
| r_add_feed: "reachable s \<Longrightarrow> reachable (add_feed a f s)"
| r_deliver: "reachable s \<Longrightarrow> reachable (snd (data_handler m t s))"
| r_start: "reachable s \<Longrightarrow> reachable (s\<lparr> aggregate := True \<rparr>)"
| r_stop: "reachable s \<Longrightarrow> reachable (snd (stop_aggregate s))"
| r_new_file: "reachable s \<Longrightarrow> reachable (snd (new_file d r s))"
| r_end_file: "reachable s \<Longrightarrow> reachable (snd (end_file s))"

subsection \<open>The timestreams of a list of samples\<close>

text \<open>
  The readings and the times that a list of items (key, (time, reading)) holds for one
  key, in the order of the list, and the list that an association list holds for a key
  (empty when the key is missing).  In \<open>paired\<close> dicts the keys are the same, in the same
  order, and no key occurs twice.
\<close>

definition readings_of :: "string \<Rightarrow> (string \<times> real \<times> real) list \<Rightarrow> real list" where
  "readings_of k items = map (\<lambda>kv. snd (snd kv)) (filter (\<lambda>kv. fst kv = k) items)"

definition times_of :: "string \<Rightarrow> (string \<times> real \<times> real) list \<Rightarrow> real list" where
  "times_of k items = map (\<lambda>kv. fst (snd kv)) (filter (\<lambda>kv. fst kv = k) items)"

definition series :: "(string \<times> real list) list \<Rightarrow> string \<Rightarrow> real list" where
  "series al k = (case map_of al k of None \<Rightarrow> [] | Some xs \<Rightarrow> xs)"

definition paired :: "tod_dicts \<Rightarrow> bool" where
  "paired d \<longleftrightarrow> map fst (fst d) = map fst (snd d) \<and> distinct (map fst (fst d))"

section \<open>Subscription\<close>

lemma add_feed_subscribed:
  "feed_address_of a f \<in> set (subscribed_feeds (add_feed a f s))"
  by (simp add: add_feed_def Let_def)

lemma add_feed_again: "add_feed a f (add_feed a f s) = add_feed a f s"
  by (simp add: add_feed_def Let_def)

text \<open>
  C6.  Subscribing to a feed address that is already subscribed changes nothing: the
  task returns the pair (False, "Already subscribed to feed ...") instead of raising,
  \<open>add_feed\<close> itself returns at once, and the list of subscriptions, the buffers and the
  registrations with the agent stay as they were.  After a first subscription of an
  address that was not subscribed, a second one therefore leaves the address in the list
  exactly once.
\<close>

theorem subscribe_twice_idempotent:
  assumes "params ''agent_address'' = Some a" and "params ''feed_name'' = Some f"
  shows "(feed_address_of a f \<in> set (subscribed_feeds s) \<longrightarrow>
           add_feed_task (Some params) s
             = (Inr (False, ''Already subscribed to feed '' @ feed_address_of a f), s)
           \<and> add_feed a f s = s)
       \<and> (feed_address_of a f \<notin> set (subscribed_feeds s) \<longrightarrow>
           (\<exists>s1. add_feed_task (Some params) s = (Inr (True, ''Subscribed to data feeds.''), s1)
              \<and> add_feed_task (Some params) s1
                  = (Inr (False, ''Already subscribed to feed '' @ feed_address_of a f), s1)
              \<and> add_feed a f s1 = s1
              \<and> count_list (subscribed_feeds s1) (feed_address_of a f) = 1))"
proof (intro conjI impI)
  assume "feed_address_of a f \<in> set (subscribed_feeds s)"
  then show "add_feed_task (Some params) s
             = (Inr (False, ''Already subscribed to feed '' @ feed_address_of a f), s)"
    using assms by (simp add: add_feed_task_def Let_def)
next
  assume "feed_address_of a f \<in> set (subscribed_feeds s)"
  then show "add_feed a f s = s"
    by (simp add: add_feed_def Let_def)
next
  assume new: "feed_address_of a f \<notin> set (subscribed_feeds s)"
  have c: "count_list (subscribed_feeds s) (feed_address_of a f) = 0"
    using new by (simp add: count_list_0_iff)
  have 1: "add_feed_task (Some params) s
             = (Inr (True, ''Subscribed to data feeds.''), add_feed a f s)"
    using assms new by (simp add: add_feed_task_def Let_def)
  have 2: "add_feed_task (Some params) (add_feed a f s)
             = (Inr (False, ''Already subscribed to feed '' @ feed_address_of a f),
                add_feed a f s)"
    using assms add_feed_subscribed [of a f s] by (simp add: add_feed_task_def Let_def)
  have 3: "count_list (subscribed_feeds (add_feed a f s)) (feed_address_of a f) = 1"
    using new c by (simp add: add_feed_def Let_def)
  show "\<exists>s1. add_feed_task (Some params) s = (Inr (True, ''Subscribed to data feeds.''), s1)
            \<and> add_feed_task (Some params) s1
                = (Inr (False, ''Already subscribed to feed '' @ feed_address_of a f), s1)
            \<and> add_feed a f s1 = s1
            \<and> count_list (subscribed_feeds s1) (feed_address_of a f) = 1"
    using 1 2 3 add_feed_again [of a f s] by blast
qed

theorem subscribe_twice_idempotent_witness:
  "add_feed_task (Some [''agent_address'' \<mapsto> ''dev1'', ''feed_name'' \<mapsto> ''therm''])
     (add_feed ''dev1'' ''therm'' init)
     = (Inr (False, ''Already subscribed to feed dev1.feeds.therm''),
        add_feed ''dev1'' ''therm'' init)
   \<and> subscribed_feeds (add_feed ''dev1'' ''therm'' (add_feed ''dev1'' ''therm'' init))
       = [''dev1.feeds.therm'']
   \<and> registered (add_feed ''dev1'' ''therm'' (add_feed ''dev1'' ''therm'' init))
       = [(''dev1'', ''therm'')]"
  using subscribe_twice_idempotent
    [of "[''agent_address'' \<mapsto> ''dev1'', ''feed_name'' \<mapsto> ''therm'']"
        "''dev1''" "''therm''" "add_feed ''dev1'' ''therm'' init"]
  by (simp add: add_feed_def feed_address_of_def init_def Let_def)


section \<open>Floats\<close>

lemma round_small_0: "round_small 0 e = 0"
  by (induction "0::real" e rule: round_small.induct) (simp add: round_small.simps round_even_def)

lemma round_double_0: "round_double 0 = 0"
  by (simp add: round_double_def round_small_0)

lemma float_sub_gt_same: "float_sub_gt t t T \<longleftrightarrow> T < 0"
  by (simp add: float_sub_gt_def round_double_0)

text \<open>The doubles nearest to 1.1 and to 0.1 differ by more than 1 as real numbers, and by
  exactly 1.0 as floats.\<close>

lemma float_sub_gt_rounds:
  "2476979795053773 / 2251799813685248 - 3602879701896397 / 36028797018963968 > (1::real)
   \<and> \<not> float_sub_gt (2476979795053773 / 2251799813685248)
          (3602879701896397 / 36028797018963968) 1"
  by (simp add: float_sub_gt_def round_double_def round_small.simps round_even_def Let_def)

section \<open>Serializing\<close>

lemma write_frame_buffers [simp]:
  "buffers (snd (write_frame_to_file a b s)) = buffers s"
  "buffer_start_times (snd (write_frame_to_file a b s)) = buffer_start_times s"
  "aggregate (snd (write_frame_to_file a b s)) = aggregate s"
  "subscribed_feeds (snd (write_frame_to_file a b s)) = subscribed_feeds s"
  "segments (snd (write_frame_to_file a b s)) = segments s"
  by (auto simp: write_frame_to_file_def split: list.splits sum.splits option.splits prod.splits)

lemma write_frame_fields:
  assumes "write_frame_to_file a b s = (r, s')"
  shows "buffers s' = buffers s" and "buffer_start_times s' = buffer_start_times s"
    and "aggregate s' = aggregate s" and "subscribed_feeds s' = subscribed_feeds s"
    and "segments s' = segments s"
  using write_frame_buffers [of a b s] assms by simp_all

lemma write_frame_eqD:
  "write_frame_to_file a b s = (r, s') \<Longrightarrow>
   buffers s' = buffers s \<and> buffer_start_times s' = buffer_start_times s
   \<and> aggregate s' = aggregate s \<and> subscribed_feeds s' = subscribed_feeds s
   \<and> segments s' = segments s"
  using write_frame_buffers [of a b s] by simp

lemma write_frame_ok:
  "py_split ''.feeds.'' a = [agent, f] \<Longrightarrow> collect b = Inr (tods, tss) \<Longrightarrow> g3file s = Some w \<Longrightarrow>
   write_frame_to_file a b s = (Inr (), s\<lparr> g3file := Some (w @ [Housekeeping agent f tods tss]) \<rparr>)"
  by (simp add: write_frame_to_file_def)

text \<open>A call of \<open>write_frame_to_file\<close> either raises and leaves the object as it was, or
  appends one frame to the open file.\<close>

lemma write_frame_cases:
  obtains (failed) e where "write_frame_to_file a b s = (Inl e, s)"
  | (written) agent f tods tss w where
      "py_split ''.feeds.'' a = [agent, f]" "collect b = Inr (tods, tss)" "g3file s = Some w"
      "write_frame_to_file a b s
         = (Inr (), s\<lparr> g3file := Some (w @ [Housekeeping agent f tods tss]) \<rparr>)"
proof (cases "write_frame_to_file a b s")
  case (Pair r s')
  show ?thesis
  proof (cases r)
    case (Inl e)
    with Pair have "write_frame_to_file a b s = (Inl e, s)"
      by (auto simp: write_frame_to_file_def split: list.splits sum.splits option.splits)
    then show ?thesis by (rule failed)
  next
    case (Inr u)
    with Pair obtain agent f tods tss w where
      "py_split ''.feeds.'' a = [agent, f]" "collect b = Inr (tods, tss)" "g3file s = Some w"
      by (auto simp: write_frame_to_file_def split: list.splits sum.splits option.splits)
    then show ?thesis using written [of agent f tods tss w] by (simp add: write_frame_ok)
  qed
qed

text \<open>Whether the call raises depends on the object only through \<open>self.file\<close>.\<close>

lemma write_frame_outcome:
  "g3file s' = g3file s \<Longrightarrow>
   fst (write_frame_to_file a b s') = fst (write_frame_to_file a b s)"
  by (auto simp: write_frame_to_file_def split: list.splits sum.splits option.splits)

lemma split_dev1: "py_split ''.feeds.'' ''dev1.feeds.therm'' = [''dev1'', ''therm'']"
  by (simp add: py_split_def)

lemma recording_eq:
  "recording = \<lparr> subscribed_feeds = [''dev1.feeds.therm''],
                 buffers = [(''dev1.feeds.therm'', [])], buffer_start_times = [],
                 aggregate = True, filename = [], g3file = Some [],
                 registered = [(''dev1'', ''therm'')], segments = [] \<rparr>"
  by (simp add: recording_def start_file_def add_feed_def init_def feed_address_of_def Let_def)

lemma stalled_eq:
  "stalled = \<lparr> subscribed_feeds = [''dev1.feeds.therm''],
               buffers = [(''dev1.feeds.therm'', [])], buffer_start_times = [],
               aggregate = True, filename = [], g3file = None,
               registered = [(''dev1'', ''therm'')], segments = [] \<rparr>"
  by (simp add: stalled_def add_feed_def init_def feed_address_of_def Let_def)

section \<open>The data handler\<close>

text \<open>The seven ways through \<open>_data_handler\<close>.\<close>

lemma data_handler_cases:
  obtains (idle) "\<not> aggregate s" "data_handler (data, fd) t s = (Inr (), s)"
  | (passthrough) "aggregate s" "buffered fd"
      "data_handler (data, fd) t s = write_frame_to_file (address fd) data s"
  | (no_buffer) "aggregate s" "\<not> buffered fd" "map_of (buffers s) (address fd) = None"
      "data_handler (data, fd) t s = (Inl (KeyError (address fd)), s)"
  | (no_start) buf where "aggregate s" "\<not> buffered fd" "map_of (buffers s) (address fd) = Some buf"
      "buf \<noteq> []" "map_of (buffer_start_times s) (address fd) = None"
      "data_handler (data, fd) t s = (Inl (KeyError (address fd)), s)"
  | (append) buf starts st where "aggregate s" "\<not> buffered fd"
      "map_of (buffers s) (address fd) = Some buf"
      "starts = (if buf = [] then AList.update (address fd) t (buffer_start_times s)
                 else buffer_start_times s)"
      "map_of starts (address fd) = Some st" "\<not> float_sub_gt t st (buffer_time fd)"
      "data_handler (data, fd) t s
         = (Inr (), s\<lparr> buffer_start_times := starts,
                        buffers := AList.map_entry (address fd) (\<lambda>b. b @ [data]) (buffers s) \<rparr>)"
  | (flush_failed) buf starts st e where "aggregate s" "\<not> buffered fd"
      "map_of (buffers s) (address fd) = Some buf"
      "starts = (if buf = [] then AList.update (address fd) t (buffer_start_times s)
                 else buffer_start_times s)"
      "map_of starts (address fd) = Some st" "float_sub_gt t st (buffer_time fd)"
      "write_frame_to_file (address fd) (List buf) (s\<lparr> buffer_start_times := starts \<rparr>)
         = (Inl e, s\<lparr> buffer_start_times := starts \<rparr>)"
      "data_handler (data, fd) t s = (Inl e, s\<lparr> buffer_start_times := starts \<rparr>)"
  | (flushed) buf starts st agent f tods tss w where "aggregate s" "\<not> buffered fd"
      "map_of (buffers s) (address fd) = Some buf"
      "starts = (if buf = [] then AList.update (address fd) t (buffer_start_times s)
                 else buffer_start_times s)"
      "map_of starts (address fd) = Some st" "float_sub_gt t st (buffer_time fd)"
      "py_split ''.feeds.'' (address fd) = [agent, f]" "collect (List buf) = Inr (tods, tss)"
      "g3file s = Some w"
      "data_handler (data, fd) t s
         = (Inr (), s\<lparr> g3file := Some (w @ [Housekeeping agent f tods tss]),
                        buffer_start_times := AList.update (address fd) t starts,
                        buffers := AList.map_entry (address fd) (\<lambda>b. b @ [data])
                                     (AList.update (address fd) [] (buffers s)) \<rparr>)"
proof (cases "aggregate s")
  case False
  then show ?thesis using idle by (simp add: data_handler_def)
next
  case agg: True
  show ?thesis
  proof (cases "buffered fd")
    case True
    with agg show ?thesis using passthrough by (simp add: data_handler_def)
  next
    case unb: False
    show ?thesis
    proof (cases "map_of (buffers s) (address fd)")
      case None
      with agg unb show ?thesis using no_buffer by (simp add: data_handler_def)
    next
      case (Some buf)
      define starts where "starts = (if buf = [] then AList.update (address fd) t (buffer_start_times s)
                 else buffer_start_times s)"
      have s1: "(if buf = [] then s\<lparr> buffer_start_times :=
                     AList.update (address fd) t (buffer_start_times s) \<rparr> else s)
                  = s\<lparr> buffer_start_times := starts \<rparr>"
        by (simp add: starts_def)
      show ?thesis
      proof (cases "map_of starts (address fd)")
        case None
        then have ne: "buf \<noteq> []" and "map_of (buffer_start_times s) (address fd) = None"
          by (auto simp: starts_def AList.update_conv' split: if_splits)
        with agg unb Some show ?thesis using no_start [of buf]
          by (simp add: data_handler_def)
      next
        case st: (Some st)
        have h: "data_handler (data, fd) t s =
            (case (if float_sub_gt t st (buffer_time fd)
                   then (case write_frame_to_file (address fd) (List buf)
                                (s\<lparr> buffer_start_times := starts \<rparr>) of
                           (Inl e, s2) \<Rightarrow> (Inl e, s2)
                         | (Inr u, s2) \<Rightarrow>
                             (Inr (),
                              s2\<lparr> buffer_start_times :=
                                     AList.update (address fd) t (buffer_start_times s2),
                                   buffers := AList.update (address fd) [] (buffers s2) \<rparr>))
                   else (Inr (), s\<lparr> buffer_start_times := starts \<rparr>)) of
               (Inl e, s3) \<Rightarrow> (Inl e, s3)
             | (Inr u, s3) \<Rightarrow>
                 (Inr (),
                  s3\<lparr> buffers :=
                         AList.map_entry (address fd) (\<lambda>b. b @ [data]) (buffers s3) \<rparr>))"
          using agg unb Some st
          by (cases "buf = []") (simp_all add: data_handler_def Let_def starts_def)
        show ?thesis
        proof (cases "float_sub_gt t st (buffer_time fd)")
          case False
          with h have "data_handler (data, fd) t s
             = (Inr (), s\<lparr> buffer_start_times := starts,
                        buffers := AList.map_entry (address fd) (\<lambda>b. b @ [data]) (buffers s) \<rparr>)"
            by simp
          with agg unb Some st False show ?thesis using append [of buf starts st]
            by (simp add: starts_def)
        next
          case True
          show ?thesis
          proof (cases rule: write_frame_cases
              [of "address fd" "List buf" "s\<lparr> buffer_start_times := starts \<rparr>"])
            case (failed e)
            with h True have "data_handler (data, fd) t s
                = (Inl e, s\<lparr> buffer_start_times := starts \<rparr>)" by simp
            with agg unb Some st True failed show ?thesis
              using flush_failed [of buf starts st e] by (simp add: starts_def)
          next
            case (written agent f tods tss w)
            with h True have "data_handler (data, fd) t s
               = (Inr (), s\<lparr> g3file := Some (w @ [Housekeeping agent f tods tss]),
                        buffer_start_times := AList.update (address fd) t starts,
                        buffers := AList.map_entry (address fd) (\<lambda>b. b @ [data])
                                     (AList.update (address fd) [] (buffers s)) \<rparr>)"
              by simp
            with agg unb Some st True written show ?thesis
              using flushed [of buf starts st agent f tods tss w] by (simp add: starts_def)
          qed
        qed
      qed
    qed
  qed
qed

lemma data_handler_fields [simp]:
  "subscribed_feeds (snd (data_handler m t s)) = subscribed_feeds s"
  "aggregate (snd (data_handler m t s)) = aggregate s"
  "segments (snd (data_handler m t s)) = segments s"
  by (cases rule: data_handler_cases [of s "fst m" "snd m" t]; cases m; simp)+

text \<open>The start of the process with a \<open>data_dir\<close> that is no string raises at
  \<open>os.path.join\<close>, after \<open>self.aggregate\<close> was set and before any file is opened.\<close>

lemma failed_start:
  "start_aggregate (Some [''data_dir'' \<mapsto> Num 5]) [first_turn] (add_feed ''dev1'' ''therm'' init)
     = (Some (Inl TypeError), stalled)"
  by (simp add: start_aggregate_def new_file_def stalled_def add_feed_def init_def Let_def)

text \<open>
  C3.  The claim does not hold as it stands: a batch delivered on a feed marked \<open>buffered\<close>
  while \<open>self.aggregate\<close> is set is not always written to a frame.  After the failed start
  above no file is open, the next batch makes the handler raise TypeError at
  \<open>self.file(frame)\<close>, and the batch is in no frame and in no buffer.
\<close>

theorem passthrough_serializes_at_once_counterexample:
  "start_aggregate (Some [''data_dir'' \<mapsto> Num 5]) [first_turn] (add_feed ''dev1'' ''therm'' init)
     = (Some (Inl TypeError), stalled)
   \<and> aggregate stalled \<and> g3file stalled = None
   \<and> data_handler (List [Dict [(''ch1'', (0, 10))]], therm True 600) 3 stalled
       = (Inl TypeError, stalled)"
  by (simp add: failed_start stalled_eq therm_def split_dev1 add_val_def data_handler_def
      write_frame_to_file_def Let_def)

text \<open>
  C3, amended.  While the aggregator is aggregating, a delivery on a feed marked
  \<open>buffered\<close> never touches the buffers or the buffer start times, and neither
  \<open>buffer_time\<close> nor the time of arrival plays a part.  The batch is written at once, as
  one housekeeping frame appended to the open file, exactly when a file is open, the
  address splits at \<open>.feeds.\<close> into agent and feed, and the batch is a list of data
  points; otherwise the handler raises and the aggregator stays as it was.
\<close>

theorem passthrough_serializes_at_once:
  assumes "aggregate s" and "buffered fd"
  shows "buffers (snd (data_handler (data, fd) t s)) = buffers s
       \<and> buffer_start_times (snd (data_handler (data, fd) t s)) = buffer_start_times s
       \<and> data_handler (data, fd\<lparr> buffer_time := T \<rparr>) t' s = data_handler (data, fd) t s
       \<and> (\<forall>agent f w tods tss.
            py_split ''.feeds.'' (address fd) = [agent, f] \<and> collect data = Inr (tods, tss)
              \<and> g3file s = Some w \<longrightarrow>
            data_handler (data, fd) t s
              = (Inr (), s\<lparr> g3file := Some (w @ [Housekeeping agent f tods tss]) \<rparr>))
       \<and> (fst (data_handler (data, fd) t s) = Inr () \<longrightarrow>
            (\<exists>agent f w tods tss.
               py_split ''.feeds.'' (address fd) = [agent, f] \<and> collect data = Inr (tods, tss)
                 \<and> g3file s = Some w))
       \<and> (fst (data_handler (data, fd) t s) \<noteq> Inr () \<longrightarrow>
            snd (data_handler (data, fd) t s) = s)"
proof -
  have h: "\<And>t fd'. buffered fd' \<Longrightarrow>
      data_handler (data, fd') t s = write_frame_to_file (address fd') data s"
    using assms(1) by (simp add: data_handler_def)
  show ?thesis
  proof (cases rule: write_frame_cases [of "address fd" data s])
    case (failed e)
    have no: "\<And>agent f tods tss w.
        \<not> (py_split ''.feeds.'' (address fd) = [agent, f] \<and> collect data = Inr (tods, tss)
           \<and> g3file s = Some w)"
      using failed by (auto simp: write_frame_ok)
    with failed assms(2) show ?thesis by (simp add: h)
  next
    case (written agent f tods tss w)
    with assms(2) show ?thesis by (simp add: h)
  qed
qed

theorem passthrough_serializes_at_once_witness:
  "data_handler (List [Dict [(''ch1'', (0, 10)), (''ch2'', (0, 20))], Dict [(''ch1'', (0.5, 11))]],
                 therm True 600) 3 recording
     = (Inr (),
        recording\<lparr> g3file :=
          Some [Housekeeping ''dev1'' ''therm'' [(''ch1'', [10, 11]), (''ch2'', [20])]
                  [(''ch1'', [0, 0.5]), (''ch2'', [0])]] \<rparr>)
   \<and> buffers (snd (data_handler
        (List [Dict [(''ch1'', (0, 10)), (''ch2'', (0, 20))], Dict [(''ch1'', (0.5, 11))]],
         therm True 600) 3 recording)) = [(''dev1.feeds.therm'', [])]"
  using passthrough_serializes_at_once
    [where s = recording and fd = "therm True 600" and t = 3 and t' = 4 and T = 1
       and data = "List [Dict [(''ch1'', (0, 10)), (''ch2'', (0, 20))], Dict [(''ch1'', (0.5, 11))]]"]
  by (simp add: recording_eq therm_def split_dev1 add_val_def data_handler_def
      write_frame_to_file_def Let_def)

text \<open>
  C2.  The claim does not hold as it stands: when the time since the start of the buffer
  exceeds \<open>buffer_time\<close>, the buffer is not always serialized and cleared, and the new
  sample is not always appended.  After the failed start above no file is open.  The
  sample that arrives at time 0 goes to the buffer; for the sample that arrives at time
  1.2, with \<open>buffer_time\<close> 1, the handler raises TypeError at \<open>self.file(frame)\<close>: nothing
  is written, the buffer and its start time stay, and the new sample is dropped.
\<close>

theorem buffer_flush_threshold_counterexample:
  "start_aggregate (Some [''data_dir'' \<mapsto> Num 5]) [first_turn] (add_feed ''dev1'' ''therm'' init)
     = (Some (Inl TypeError), stalled)
   \<and> data_handler (Dict [(''ch1'', (0, 10))], therm False 1) 0 stalled
       = (Inr (), stalled\<lparr> buffers := [(''dev1.feeds.therm'', [Dict [(''ch1'', (0, 10))]])],
                           buffer_start_times := [(''dev1.feeds.therm'', 0)] \<rparr>)
   \<and> float_sub_gt 1.2 0 1
   \<and> data_handler (Dict [(''ch1'', (1.2, 12))], therm False 1) 1.2
        (stalled\<lparr> buffers := [(''dev1.feeds.therm'', [Dict [(''ch1'', (0, 10))]])],
                  buffer_start_times := [(''dev1.feeds.therm'', 0)] \<rparr>)
       = (Inl TypeError,
          stalled\<lparr> buffers := [(''dev1.feeds.therm'', [Dict [(''ch1'', (0, 10))]])],
                    buffer_start_times := [(''dev1.feeds.therm'', 0)] \<rparr>)"
  by (simp add: failed_start stalled_eq therm_def split_dev1 add_val_def data_handler_def
      write_frame_to_file_def float_sub_gt_def round_double_def round_small.simps
      round_even_def Let_def)

text \<open>
  C2, amended.  A delivery on a feed that is not marked \<open>buffered\<close>, while the aggregator
  is aggregating and holds a buffer for the address.  The start time of an empty buffer is
  set to the current time.  The time since the start of the buffer is the difference of
  the two floats; when it is not greater than \<open>buffer_time\<close>, nothing is written and the
  sample is appended to the buffer.  When it is greater and the buffer can be serialized
  (a file is open, the address splits at \<open>.feeds.\<close> into agent and feed, the buffer holds
  data points), one frame with the old buffer is written first, the start time becomes
  the current time, and the buffer then holds the new sample alone.  When it is greater
  and the serialization raises, the handler raises the same error, nothing is written, the
  buffer is not cleared and the new sample is not appended.  The buffers of the other
  feeds are never touched.
\<close>

theorem buffer_flush_threshold:
  assumes "aggregate s" and "\<not> buffered fd"
    and "map_of (buffers s) (address fd) = Some buf"
    and "buf \<noteq> [] \<longrightarrow> map_of (buffer_start_times s) (address fd) = Some st"
  shows "(\<not> float_sub_gt t (if buf = [] then t else st) (buffer_time fd) \<longrightarrow>
            fst (data_handler (data, fd) t s) = Inr ()
          \<and> g3file (snd (data_handler (data, fd) t s)) = g3file s
          \<and> map_of (buffers (snd (data_handler (data, fd) t s))) (address fd) = Some (buf @ [data])
          \<and> map_of (buffer_start_times (snd (data_handler (data, fd) t s))) (address fd)
              = Some (if buf = [] then t else st))
       \<and> (float_sub_gt t (if buf = [] then t else st) (buffer_time fd) \<longrightarrow>
            (\<forall>agent f tods tss w.
               py_split ''.feeds.'' (address fd) = [agent, f] \<and> collect (List buf) = Inr (tods, tss)
                 \<and> g3file s = Some w \<longrightarrow>
               fst (data_handler (data, fd) t s) = Inr ()
             \<and> g3file (snd (data_handler (data, fd) t s))
                 = Some (w @ [Housekeeping agent f tods tss])
             \<and> map_of (buffers (snd (data_handler (data, fd) t s))) (address fd) = Some [data]
             \<and> map_of (buffer_start_times (snd (data_handler (data, fd) t s))) (address fd)
                 = Some t)
          \<and> (\<forall>e. fst (write_frame_to_file (address fd) (List buf) s) = Inl e \<longrightarrow>
               fst (data_handler (data, fd) t s) = Inl e
             \<and> g3file (snd (data_handler (data, fd) t s)) = g3file s
             \<and> buffers (snd (data_handler (data, fd) t s)) = buffers s
             \<and> map_of (buffer_start_times (snd (data_handler (data, fd) t s))) (address fd)
                 = Some (if buf = [] then t else st)))
       \<and> (\<forall>k. k \<noteq> address fd \<longrightarrow>
            map_of (buffers (snd (data_handler (data, fd) t s))) k = map_of (buffers s) k)"
proof (cases rule: data_handler_cases [of s data fd t])
  case idle
  with assms show ?thesis by simp
next
  case passthrough
  with assms show ?thesis by simp
next
  case no_buffer
  with assms show ?thesis by simp
next
  case (no_start buf')
  with assms show ?thesis by simp
next
  case (append buf' starts st')
  with assms have b: "buf' = buf" and st: "st' = (if buf = [] then t else st)"
    by (auto simp: AList.update_conv' split: if_splits)
  show ?thesis
    using append(6,7) assms(3,4) unfolding b st
    by (simp add: AList.map_of_map_entry append(4) [unfolded b] AList.update_conv')
next
  case (flush_failed buf' starts st' e)
  with assms have b: "buf' = buf" and st: "st' = (if buf = [] then t else st)"
    by (auto simp: AList.update_conv' split: if_splits)
  have o: "fst (write_frame_to_file (address fd) (List buf) s) = Inl e"
    using write_frame_outcome [of "s\<lparr> buffer_start_times := starts \<rparr>" s "address fd" "List buf"]
      flush_failed(7) unfolding b by simp
  have no: "\<And>agent f tods tss w.
      \<not> (py_split ''.feeds.'' (address fd) = [agent, f] \<and> collect (List buf) = Inr (tods, tss)
         \<and> g3file s = Some w)"
    using o by (auto simp: write_frame_ok)
  show ?thesis
    using flush_failed(6,8) o no flush_failed(5) unfolding b st
    by simp
next
  case (flushed buf' starts st' agent f tods tss w)
  with assms have b: "buf' = buf" and st: "st' = (if buf = [] then t else st)"
    by (auto simp: AList.update_conv' split: if_splits)
  have o: "fst (write_frame_to_file (address fd) (List buf) s) = Inr ()"
    using flushed(7,8,9) unfolding b by (simp add: write_frame_ok)
  show ?thesis
    using flushed(6,7,8,9,10) o unfolding b st
    by (simp add: AList.map_of_map_entry AList.update_conv')
qed

theorem buffer_flush_threshold_witness:
  "fold fire [Deliver (Dict [(''ch1'', (0, 10))]) (therm False 1) 0,
              Deliver (Dict [(''ch1'', (0.5, 11))]) (therm False 1) 0.5] recording
     = recording\<lparr> buffers := [(''dev1.feeds.therm'',
                                 [Dict [(''ch1'', (0, 10))], Dict [(''ch1'', (0.5, 11))]])],
                  buffer_start_times := [(''dev1.feeds.therm'', 0)] \<rparr>
   \<and> g3file (snd (data_handler (Dict [(''ch1'', (1.2, 12))], therm False 1) 1.2
        (recording\<lparr> buffers := [(''dev1.feeds.therm'',
                                 [Dict [(''ch1'', (0, 10))], Dict [(''ch1'', (0.5, 11))]])],
                    buffer_start_times := [(''dev1.feeds.therm'', 0)] \<rparr>)))
       = Some [Housekeeping ''dev1'' ''therm'' [(''ch1'', [10, 11])] [(''ch1'', [0, 0.5])]]
   \<and> map_of (buffers (snd (data_handler (Dict [(''ch1'', (1.2, 12))], therm False 1) 1.2
        (recording\<lparr> buffers := [(''dev1.feeds.therm'',
                                 [Dict [(''ch1'', (0, 10))], Dict [(''ch1'', (0.5, 11))]])],
                    buffer_start_times := [(''dev1.feeds.therm'', 0)] \<rparr>))))
        ''dev1.feeds.therm''
       = Some [Dict [(''ch1'', (1.2, 12))]]"
  using buffer_flush_threshold
    [of "recording\<lparr> buffers := [(''dev1.feeds.therm'',
                                 [Dict [(''ch1'', (0, 10))], Dict [(''ch1'', (0.5, 11))]])],
                    buffer_start_times := [(''dev1.feeds.therm'', 0)] \<rparr>"
        "therm False 1" "[Dict [(''ch1'', (0, 10))], Dict [(''ch1'', (0.5, 11))]]" 0 "1.2"
        "Dict [(''ch1'', (1.2, 12))]"]
  by (simp add: recording_eq therm_def split_dev1 add_val_def data_handler_def
      write_frame_to_file_def float_sub_gt_def round_double_def round_small.simps
      round_even_def Let_def)

section \<open>Flushing at the end of a file\<close>

lemma flush_buffers_fields [simp]:
  "buffer_start_times (snd (flush_buffers kvs s)) = buffer_start_times s"
  "aggregate (snd (flush_buffers kvs s)) = aggregate s"
  "subscribed_feeds (snd (flush_buffers kvs s)) = subscribed_feeds s"
  "segments (snd (flush_buffers kvs s)) = segments s"
  by (induction kvs s rule: flush_buffers.induct;
      auto split: prod.splits sum.splits dest: write_frame_fields)+


lemma flush_buffers_keys:
  "fst ` set (buffers s) \<subseteq> fst ` set (buffers (snd (flush_buffers kvs s)))"
proof (induction kvs s rule: flush_buffers.induct)
  case (1 s)
  then show ?case by simp
next
  case (2 k' v' kvs s)
  show ?case
  proof (cases "v' \<noteq> []")
    case False
    with 2 show ?thesis by simp
  next
    case True
    obtain r s' where w: "write_frame_to_file k' (List v') s = (r, s')"
      by (cases "write_frame_to_file k' (List v') s")
    have bs: "buffers s' = buffers s" by (rule write_frame_fields(1) [OF w])
    show ?thesis
    proof (cases r)
      case (Inl e)
      with True w bs show ?thesis by auto
    next
      case (Inr u)
      with 2(1) [OF True w [symmetric, unfolded Inr] refl] True w bs
      show ?thesis
        by (auto simp: AList.dom_update)
    qed
  qed
qed

lemma data_handler_keys:
  "fst ` set (buffers s) \<subseteq> fst ` set (buffers (snd (data_handler m t s)))"
  by (cases rule: data_handler_cases [of s "fst m" "snd m" t]; cases m;
      auto simp: AList.dom_update AList.dom_map_entry)

lemma end_file_fields [simp]:
  "subscribed_feeds (snd (end_file s)) = subscribed_feeds s"
  "aggregate (snd (end_file s)) = aggregate s"
  "buffer_start_times (snd (end_file s)) = buffer_start_times s"
  "segments (snd (end_file s)) = segments s"
proof -
  obtain r s' where f: "flush_buffers (buffers s) s = (r, s')"
    by (cases "flush_buffers (buffers s) s")
  have "subscribed_feeds s' = subscribed_feeds s" "aggregate s' = aggregate s"
    "buffer_start_times s' = buffer_start_times s" "segments s' = segments s"
    using flush_buffers_fields [of "buffers s" s] f by simp_all
  then show "subscribed_feeds (snd (end_file s)) = subscribed_feeds s"
    "aggregate (snd (end_file s)) = aggregate s"
    "buffer_start_times (snd (end_file s)) = buffer_start_times s"
    "segments (snd (end_file s)) = segments s"
    using f by (auto simp: end_file_def split: sum.splits option.splits)
qed

lemma end_file_buffers:
  "buffers (snd (end_file s)) = buffers (snd (flush_buffers (buffers s) s))"
  by (auto simp: end_file_def split: prod.splits sum.splits option.splits)

lemma end_file_keys: "fst ` set (buffers s) \<subseteq> fst ` set (buffers (snd (end_file s)))"
  unfolding end_file_buffers by (rule flush_buffers_keys)

lemma end_file_eqD:
  "end_file s = (r, s') \<Longrightarrow>
   subscribed_feeds s' = subscribed_feeds s \<and> aggregate s' = aggregate s
   \<and> buffer_start_times s' = buffer_start_times s \<and> segments s' = segments s"
  using end_file_fields [of s] by simp

lemma new_file_fields [simp]:
  "subscribed_feeds (snd (new_file d r s)) = subscribed_feeds s"
  "aggregate (snd (new_file d r s)) = aggregate s"
  "buffer_start_times (snd (new_file d r s)) = buffer_start_times s"
  by (auto simp: new_file_def start_file_def Let_def
      split: prod.splits sum.splits param.splits if_splits
      dest!: end_file_eqD)

lemma new_file_buffers:
  "buffers (snd (new_file d r s))
     = (if g3file s \<noteq> None then buffers (snd (end_file s)) else buffers s)"
  by (auto simp: new_file_def start_file_def Let_def
      split: prod.splits sum.splits param.splits)

lemma new_file_keys: "fst ` set (buffers s) \<subseteq> fst ` set (buffers (snd (new_file d r s)))"
  using end_file_keys [of s] by (cases "g3file s") (simp_all add: new_file_buffers)

section \<open>The loop\<close>

lemma finish_snd: "snd (finish s) = snd (end_file s)"
  by (simp add: finish_def split: prod.splits sum.splits)

text \<open>What the start of a file, the handler, the stop and \<open>end_file\<close> preserve, the whole
  process preserves, however many turns it is followed.\<close>

lemma loop_invariant:
  assumes nf: "\<And>s d r. P s \<Longrightarrow> P (snd (new_file d r s))"
    and fi: "\<And>s ev. P s \<Longrightarrow> P (fire ev s)"
    and ef: "\<And>s. P s \<Longrightarrow> P (snd (end_file s))"
  shows "P s \<Longrightarrow> P (snd (aggregate_loop tpf dd nft ts turns s))"
proof (induction turns arbitrary: s nft ts)
  case Nil
  then show ?case using ef [of s] by (simp add: finish_snd)
next
  case (Cons tn turns)
  have folds: "\<And>evs s. P s \<Longrightarrow> P (fold fire evs s)"
  proof -
    fix evs s show "P s \<Longrightarrow> P (fold fire evs s)"
      by (induction evs arbitrary: s) (simp_all add: fi)
  qed
  show ?case
  proof (cases "aggregate s")
    case False
    with Cons.prems show ?thesis using ef [of s] by (simp add: finish_snd)
  next
    case True
    define r where "r = (if nft then new_file dd (opened tn) s else (Inr (), s))"
    define ts' where "ts' = (if nft then timestamp (opened tn) else ts)"
    have c1: "P (snd r)"
      using Cons.prems by (simp add: r_def nf)
    obtain o1 s1 where r: "r = (o1, s1)" by (cases r)
    with c1 have c2: "P (fold fire (arrivals tn) s1)"
      by (simp add: folds)
    have step: "aggregate_loop tpf dd nft ts (tn # turns) s =
      (case r of
         (Inl e, s1) \<Rightarrow> (Some (Inl e), s1)
       | (Inr u, s1) \<Rightarrow>
           (case tpf of
              Str x \<Rightarrow> (Some (Inl TypeError), fold fire (arrivals tn) s1)
            | Num limit \<Rightarrow>
                aggregate_loop tpf dd (float_sub_gt (checked tn) ts' limit) ts' turns
                  (fold fire (arrivals tn) s1)))"
      using True
      by (cases nft) (simp_all add: r_def ts'_def Let_def split: prod.splits sum.splits param.splits)
    show ?thesis
    proof (cases o1)
      case (Inl e)
      with r c1 show ?thesis unfolding step by simp
    next
      case (Inr u)
      show ?thesis
      proof (cases tpf)
        case (Num limit)
        with r Inr Cons.IH [OF c2] show ?thesis unfolding step by simp
      next
        case (Str x)
        with r Inr c2 show ?thesis unfolding step by simp
      qed
    qed
  qed
qed

lemma start_aggregate_invariant:
  assumes "\<And>s d r. P s \<Longrightarrow> P (snd (new_file d r s))"
    and "\<And>s ev. P s \<Longrightarrow> P (fire ev s)"
    and "\<And>s. P s \<Longrightarrow> P (snd (end_file s))"
    and "P (s\<lparr> aggregate := True \<rparr>)"
  shows "P (snd (start_aggregate p turns s))"
  unfolding start_aggregate_def Let_def
  using assms(1,2,3) assms(4) by (rule loop_invariant)

section \<open>Reachable aggregators\<close>

lemma reachable_fire: "reachable s \<Longrightarrow> reachable (fire ev s)"
  by (cases ev) (simp_all add: r_deliver r_stop)

lemma reachable_start_aggregate: "reachable s \<Longrightarrow> reachable (snd (start_aggregate p turns s))"
  by (rule start_aggregate_invariant [where P = reachable])
     (simp_all add: r_new_file r_end_file r_start reachable_fire)

lemma reachable_add_feed_task: "reachable s \<Longrightarrow> reachable (snd (add_feed_task p s))"
  by (simp add: add_feed_task_def Let_def r_add_feed split: option.splits)














section \<open>Registry and buffers\<close>

lemma consistent_step:
  assumes "consistent s" and "subscribed_feeds s' = subscribed_feeds s"
    and "fst ` set (buffers s) \<subseteq> fst ` set (buffers s')"
  shows "consistent s'"
proof -
  have "set (subscribed_feeds s') \<subseteq> fst ` set (buffers s)"
    using assms(1,2) by (simp add: consistent_def)
  also note assms(3)
  finally show ?thesis by (simp add: consistent_def)
qed

lemma consistent_add_feed:
  assumes "consistent s"
  shows "consistent (add_feed a f s)"
proof (cases "feed_address_of a f \<in> set (subscribed_feeds s)")
  case True
  then show ?thesis using assms by (simp add: add_feed_def Let_def)
next
  case False
  have "set (subscribed_feeds s) \<subseteq> fst ` set (buffers s)"
    using assms by (simp add: consistent_def)
  then have "set (subscribed_feeds s @ [feed_address_of a f])
      \<subseteq> fst ` set (AList.update (feed_address_of a f) [] (buffers s))"
    by (auto simp: AList.dom_update)
  with False show ?thesis by (simp add: add_feed_def Let_def consistent_def)
qed

lemma consistent_data_handler: "consistent s \<Longrightarrow> consistent (snd (data_handler m t s))"
  by (rule consistent_step [of s]) (simp_all add: data_handler_keys)

lemma consistent_end_file: "consistent s \<Longrightarrow> consistent (snd (end_file s))"
  by (rule consistent_step [of s]) (simp_all add: end_file_keys)

lemma consistent_new_file: "consistent s \<Longrightarrow> consistent (snd (new_file d r s))"
  by (rule consistent_step [of s]) (simp_all add: new_file_keys)

lemma consistent_stop: "consistent s \<Longrightarrow> consistent (snd (stop_aggregate s))"
  by (simp add: consistent_def stop_aggregate_def)

lemma consistent_fire: "consistent s \<Longrightarrow> consistent (fire ev s)"
  by (cases ev) (simp_all add: consistent_data_handler consistent_stop)

lemma consistent_start_aggregate:
  assumes "consistent s"
  shows "consistent (snd (start_aggregate p turns s))"
proof (rule start_aggregate_invariant [where P = consistent])
  show "consistent (s\<lparr> aggregate := True \<rparr>)" using assms by (simp add: consistent_def)
qed (simp_all add: consistent_new_file consistent_fire consistent_end_file)

lemma consistent_add_feed_task: "consistent s \<Longrightarrow> consistent (snd (add_feed_task p s))"
  by (simp add: add_feed_task_def Let_def consistent_add_feed split: option.splits)

text \<open>
  C10.  Every subscribed address has an entry in the buffer map: this holds of a new
  aggregator, and every method keeps it.  A subscription appends the address to the list
  and gives it an empty buffer in the same call; the handler, \<open>end_file\<close>, the start of a
  file and the whole process remove no key of the buffer map.
\<close>

theorem registry_buffer_consistency:
  "consistent init
   \<and> (feed_address_of a f \<notin> set (subscribed_feeds s) \<longrightarrow>
        subscribed_feeds (add_feed a f s) = subscribed_feeds s @ [feed_address_of a f]
        \<and> map_of (buffers (add_feed a f s)) (feed_address_of a f) = Some [])
   \<and> fst ` set (buffers s) \<subseteq> fst ` set (buffers (snd (data_handler m t s)))
   \<and> fst ` set (buffers s) \<subseteq> fst ` set (buffers (snd (end_file s)))
   \<and> (consistent s \<longrightarrow>
        consistent (add_feed a f s) \<and> consistent (snd (add_feed_task p s))
        \<and> consistent (snd (data_handler m t s)) \<and> consistent (snd (write_frame_to_file k b s))
        \<and> consistent (start_file s) \<and> consistent (snd (end_file s))
        \<and> consistent (snd (new_file d r s)) \<and> consistent (snd (stop_aggregate s))
        \<and> consistent (snd (start_aggregate q turns s)))"
proof (intro conjI impI)
  show "consistent init" by (simp add: consistent_def init_def)
next
  assume "feed_address_of a f \<notin> set (subscribed_feeds s)"
  then show "subscribed_feeds (add_feed a f s) = subscribed_feeds s @ [feed_address_of a f]"
    and "map_of (buffers (add_feed a f s)) (feed_address_of a f) = Some []"
    by (simp_all add: add_feed_def Let_def AList.update_conv')
next
  show "fst ` set (buffers s) \<subseteq> fst ` set (buffers (snd (data_handler m t s)))"
    by (rule data_handler_keys)
  show "fst ` set (buffers s) \<subseteq> fst ` set (buffers (snd (end_file s)))"
    by (rule end_file_keys)
next
  assume c: "consistent s"
  show "consistent (add_feed a f s)" using c by (rule consistent_add_feed)
  show "consistent (snd (add_feed_task p s))" using c by (rule consistent_add_feed_task)
  show "consistent (snd (data_handler m t s))" using c by (rule consistent_data_handler)
  show "consistent (snd (write_frame_to_file k b s))" using c by (simp add: consistent_def)
  show "consistent (start_file s)" using c by (simp add: consistent_def start_file_def)
  show "consistent (snd (end_file s))" using c by (rule consistent_end_file)
  show "consistent (snd (new_file d r s))" using c by (rule consistent_new_file)
  show "consistent (snd (stop_aggregate s))" using c by (rule consistent_stop)
  show "consistent (snd (start_aggregate q turns s))"
    using c by (rule consistent_start_aggregate)
qed

theorem registry_buffer_consistency_witness:
  "consistent init
   \<and> subscribed_feeds (add_feed ''dev1'' ''therm'' init) = [''dev1.feeds.therm'']
   \<and> map_of (buffers (add_feed ''dev1'' ''therm'' init)) ''dev1.feeds.therm'' = Some []
   \<and> consistent (add_feed ''dev1'' ''therm'' init)
   \<and> consistent (snd (start_aggregate None [first_turn] init))"
  using registry_buffer_consistency
    [where a = "''dev1''" and f = "''therm''" and s = init
       and m = "(Dict [(''ch1'', (0, 10))], therm False 1)" and t = 0
       and p = "Some [''agent_address'' \<mapsto> ''dev1'', ''feed_name'' \<mapsto> ''therm'']"
       and k = "''dev1.feeds.therm''" and b = "List []" and d = "Str ''data/''"
       and r = "opened first_turn" and q = None and turns = "[first_turn]"]
  by (simp add: init_def feed_address_of_def)

section \<open>The frame of a buffer\<close>

lemma map_fst_map_entry: "map fst (AList.map_entry k f al) = map fst al"
  by (induction al) auto

lemma series_map_entry:
  "series (AList.map_entry k f al) k'
     = (if k' = k \<and> k \<in> fst ` set al then f (series al k) else series al k')"
proof (cases "map_of al k")
  case None
  then have "k \<notin> fst ` set al" by (simp add: map_of_eq_None_iff)
  with None show ?thesis by (simp add: series_def AList.map_of_map_entry)
next
  case (Some v)
  then have "(k, v) \<in> set al" by (rule map_of_SomeD)
  then have "k \<in> fst ` set al" by force
  with Some show ?thesis by (simp add: series_def AList.map_of_map_entry)
qed

lemma series_update: "series (AList.update k v al) k' = (if k' = k then v else series al k')"
  by (simp add: series_def AList.update_conv')

lemma series_notin: "k \<notin> fst ` set al \<Longrightarrow> series al k = []"
  by (simp add: series_def map_of_eq_None_iff [symmetric])

lemma series_Some: "k \<in> fst ` set al \<Longrightarrow> map_of al k = Some (series al k)"
  by (cases "map_of al k") (auto simp: series_def map_of_eq_None_iff)

lemma paired_keys: "paired d \<Longrightarrow> fst ` set (snd d) = fst ` set (fst d)"
proof -
  assume "paired d"
  then have "set (map fst (snd d)) = set (map fst (fst d))" by (simp add: paired_def)
  then show ?thesis by simp
qed

lemma add_val_paired: "paired d \<Longrightarrow> paired (add_val kv d)"
proof -
  assume p: "paired d"
  obtain key val where kv: "kv = (key, val)" by (cases kv)
  obtain tods tss where d: "d = (tods, tss)" by (cases d)
  from p d have eq: "map fst tods = map fst tss" and dist: "distinct (map fst tods)"
    by (auto simp: paired_def)
  show ?thesis
  proof (cases "key \<in> fst ` set tods")
    case True
    then have "add_val kv d = (AList.map_entry key (\<lambda>xs. xs @ [snd val]) tods,
                               AList.map_entry key (\<lambda>xs. xs @ [fst val]) tss)"
      by (simp add: kv d add_val_def)
    then show ?thesis using eq dist by (simp add: paired_def map_fst_map_entry)
  next
    case False
    then have n1: "key \<notin> set (map fst tods)" by simp
    then have n2: "key \<notin> set (map fst tss)" using eq by simp
    have u: "map fst (AList.update key [snd val] tods) = map fst tods @ [key]"
      "map fst (AList.update key [fst val] tss) = map fst tss @ [key]"
      using n1 n2 by (simp_all only: AList.update_keys if_False)
    have "add_val kv d = (AList.update key [snd val] tods, AList.update key [fst val] tss)"
      using False by (simp add: kv d add_val_def)
    then show ?thesis using eq dist n1 by (simp add: paired_def u)
  qed
qed

lemma add_val_keys: "fst ` set (fst (add_val kv d)) = insert (fst kv) (fst ` set (fst d))"
  by (cases kv; cases d) (auto simp: add_val_def AList.dom_map_entry AList.dom_update)

lemma add_val_series:
  assumes "paired d"
  shows "series (fst (add_val kv d)) k
           = series (fst d) k @ (if k = fst kv then [snd (snd kv)] else [])
       \<and> series (snd (add_val kv d)) k
           = series (snd d) k @ (if k = fst kv then [fst (snd kv)] else [])"
proof -
  obtain key val where kv: "kv = (key, val)" by (cases kv)
  obtain tods tss where d: "d = (tods, tss)" by (cases d)
  have keys: "fst ` set tss = fst ` set tods"
    using paired_keys [OF assms] by (simp add: d)
  show ?thesis
  proof (cases "key \<in> fst ` set tods")
    case True
    with keys show ?thesis
      by (simp add: kv d add_val_def series_map_entry)
  next
    case False
    with keys show ?thesis
      by (simp add: kv d add_val_def series_update series_notin)
  qed
qed

lemma fold_add_val:
  "paired d \<Longrightarrow>
   paired (fold add_val items d)
   \<and> fst ` set (fst (fold add_val items d)) = fst ` set (fst d) \<union> fst ` set items
   \<and> series (fst (fold add_val items d)) k = series (fst d) k @ readings_of k items
   \<and> series (snd (fold add_val items d)) k = series (snd d) k @ times_of k items"
proof (induction items arbitrary: d)
  case Nil
  then show ?case by (simp add: readings_of_def times_of_def)
next
  case (Cons kv items)
  have p: "paired (add_val kv d)" using Cons.prems by (rule add_val_paired)
  show ?case
    using Cons.IH [OF p] add_val_series [OF Cons.prems, of kv k]
    by (auto simp: add_val_keys readings_of_def times_of_def)
qed

lemma add_points_dicts: "add_points (map Dict pts) d = Inr (fold add_val (concat pts) d)"
  by (induction pts arbitrary: d) simp_all

lemma paired_empty: "paired ([], [])"
  by (simp add: paired_def)

text \<open>A buffer of data points gives dicts \<open>tods\<close> and \<open>timestamps\<close> with the same keys, the
  keys of the samples, and for every key the readings and the times of its samples in the
  order of arrival.\<close>

lemma collect_dicts:
  "\<exists>tods tss. collect (List (map Dict pts)) = Inr (tods, tss)
     \<and> map fst tods = map fst tss \<and> distinct (map fst tods)
     \<and> fst ` set tods = fst ` set (concat pts)
     \<and> (\<forall>k \<in> fst ` set (concat pts).
          map_of tods k = Some (readings_of k (concat pts))
        \<and> map_of tss k = Some (times_of k (concat pts))
        \<and> length (readings_of k (concat pts)) = length (times_of k (concat pts)))"
proof -
  obtain tods tss where d: "fold add_val (concat pts) ([], []) = (tods, tss)"
    by (cases "fold add_val (concat pts) ([], [])")
  have c: "collect (List (map Dict pts)) = Inr (tods, tss)"
    by (simp add: add_points_dicts d)
  have f: "\<And>k. paired (tods, tss) \<and> fst ` set tods = fst ` set (concat pts)
      \<and> series tods k = readings_of k (concat pts)
      \<and> series tss k = times_of k (concat pts)"
    using fold_add_val [OF paired_empty, of "concat pts"] by (simp add: d series_def)
  have "paired (tods, tss)" using f by blast
  then have p: "map fst tods = map fst tss" "distinct (map fst tods)"
    by (auto simp: paired_def)
  have keys: "fst ` set tss = fst ` set tods"
    using f paired_keys [of "(tods, tss)"] by simp
  have "\<forall>k \<in> fst ` set (concat pts).
        map_of tods k = Some (readings_of k (concat pts))
      \<and> map_of tss k = Some (times_of k (concat pts))
      \<and> length (readings_of k (concat pts)) = length (times_of k (concat pts))"
  proof
    fix k assume "k \<in> fst ` set (concat pts)"
    then have "k \<in> fst ` set tods" "k \<in> fst ` set tss" using f keys by simp_all
    then show "map_of tods k = Some (readings_of k (concat pts))
      \<and> map_of tss k = Some (times_of k (concat pts))
      \<and> length (readings_of k (concat pts)) = length (times_of k (concat pts))"
      using f [of k] series_Some [of k tods] series_Some [of k tss]
      by (simp add: readings_of_def times_of_def)
  qed
  with c p f show ?thesis by blast
qed

lemma write_frame_ValueError:
  "length (py_split ''.feeds.'' addr) \<noteq> 2 \<Longrightarrow>
   write_frame_to_file addr b s = (Inl ValueError, s)"
  by (auto simp: write_frame_to_file_def split: list.splits)

lemma write_frame_no_file:
  "g3file s = None \<Longrightarrow> \<exists>e. write_frame_to_file addr b s = (Inl e, s)"
  by (cases rule: write_frame_cases [of addr b s]) simp_all

text \<open>
  C5.  The claim does not hold for every feed address: the address is split at every
  occurrence of \<open>.feeds.\<close>, and the unpacking into agent and feed raises ValueError when
  there are not exactly two pieces, as for the feed \<open>therm\<close> of an agent with the address
  \<open>obs.feeds.relay\<close>.  No record is emitted then.  Neither is one emitted while no file
  is open.
\<close>

theorem frame_serialization_counterexample:
  "feed_address_of ''obs.feeds.relay'' ''therm'' = ''obs.feeds.relay.feeds.therm''
   \<and> py_split ''.feeds.'' ''obs.feeds.relay.feeds.therm'' = [''obs'', ''relay'', ''therm'']
   \<and> write_frame_to_file ''obs.feeds.relay.feeds.therm'' (List [Dict [(''ch1'', (0, 10))]]) recording
       = (Inl ValueError, recording)
   \<and> write_frame_to_file ''dev1.feeds.therm'' (List [Dict [(''ch1'', (0, 10))]]) stalled
       = (Inl TypeError, stalled)"
  by (simp add: feed_address_of_def py_split_def write_frame_to_file_def add_val_def stalled_eq)

text \<open>
  C5, amended.  For every feed address that splits at \<open>.feeds.\<close> into exactly two pieces,
  agent and feed, for every list of data points, and while a file is open,
  \<open>write_frame_to_file\<close> appends one housekeeping frame to the file, tagged with agent and
  feed.  Its two maps have the same keys, the keys of the samples, each once; for every
  key the readings and the times are those of the samples with this key, in the order of
  their arrival, and there are as many readings as times.  For an address that does not
  split into two pieces the call raises ValueError, and while no file is open it raises
  as well; in both cases nothing is written.
\<close>

theorem frame_serialization:
  "(py_split ''.feeds.'' addr = [agent, f] \<and> g3file s = Some w \<longrightarrow>
      (\<exists>tods tss.
         write_frame_to_file addr (List (map Dict pts)) s
           = (Inr (), s\<lparr> g3file := Some (w @ [Housekeeping agent f tods tss]) \<rparr>)
       \<and> map fst tods = map fst tss \<and> distinct (map fst tods)
       \<and> fst ` set tods = fst ` set (concat pts)
       \<and> (\<forall>k \<in> fst ` set (concat pts).
            map_of tods k = Some (readings_of k (concat pts))
          \<and> map_of tss k = Some (times_of k (concat pts))
          \<and> length (readings_of k (concat pts)) = length (times_of k (concat pts)))))
   \<and> (length (py_split ''.feeds.'' addr) \<noteq> 2 \<longrightarrow>
        write_frame_to_file addr b s = (Inl ValueError, s))
   \<and> (g3file s = None \<longrightarrow> (\<exists>e. write_frame_to_file addr b s = (Inl e, s)))"
proof (intro conjI impI)
  assume a: "py_split ''.feeds.'' addr = [agent, f] \<and> g3file s = Some w"
  obtain tods tss where c: "collect (List (map Dict pts)) = Inr (tods, tss)"
    and r: "map fst tods = map fst tss \<and> distinct (map fst tods)
     \<and> fst ` set tods = fst ` set (concat pts)
     \<and> (\<forall>k \<in> fst ` set (concat pts).
          map_of tods k = Some (readings_of k (concat pts))
        \<and> map_of tss k = Some (times_of k (concat pts))
        \<and> length (readings_of k (concat pts)) = length (times_of k (concat pts)))"
    using collect_dicts [of pts] by blast
  have "write_frame_to_file addr (List (map Dict pts)) s
       = (Inr (), s\<lparr> g3file := Some (w @ [Housekeeping agent f tods tss]) \<rparr>)"
    using a c by (simp add: write_frame_ok)
  with r show "\<exists>tods tss.
         write_frame_to_file addr (List (map Dict pts)) s
           = (Inr (), s\<lparr> g3file := Some (w @ [Housekeeping agent f tods tss]) \<rparr>)
       \<and> map fst tods = map fst tss \<and> distinct (map fst tods)
       \<and> fst ` set tods = fst ` set (concat pts)
       \<and> (\<forall>k \<in> fst ` set (concat pts).
            map_of tods k = Some (readings_of k (concat pts))
          \<and> map_of tss k = Some (times_of k (concat pts))
          \<and> length (readings_of k (concat pts)) = length (times_of k (concat pts)))"
    by blast
next
  assume "length (py_split ''.feeds.'' addr) \<noteq> 2"
  then show "write_frame_to_file addr b s = (Inl ValueError, s)"
    by (rule write_frame_ValueError)
next
  assume "g3file s = None"
  then show "\<exists>e. write_frame_to_file addr b s = (Inl e, s)"
    by (rule write_frame_no_file)
qed

theorem frame_serialization_witness:
  "write_frame_to_file ''dev1.feeds.therm''
     (List (map Dict [[(''ch1'', (0, 10)), (''ch2'', (0, 20))], [(''ch1'', (0.5, 11))]])) recording
     = (Inr (), recording\<lparr> g3file :=
          Some [Housekeeping ''dev1'' ''therm'' [(''ch1'', [10, 11]), (''ch2'', [20])]
                  [(''ch1'', [0, 0.5]), (''ch2'', [0])]] \<rparr>)
   \<and> readings_of ''ch1'' [(''ch1'', (0, 10)), (''ch2'', (0, 20)), (''ch1'', (0.5, 11))] = [10, 11]
   \<and> times_of ''ch1'' [(''ch1'', (0, 10)), (''ch2'', (0, 20)), (''ch1'', (0.5, 11))] = [0, 0.5]"
  using frame_serialization [where addr = "''dev1.feeds.therm''" and agent = "''dev1''"
      and f = "''therm''" and s = recording and w = "[]" and b = "List []"
      and pts = "[[(''ch1'', (0, 10)), (''ch2'', (0, 20))], [(''ch1'', (0.5, 11))]]"]
  by (simp add: recording_eq split_dev1 add_val_def write_frame_to_file_def
      readings_of_def times_of_def)

section \<open>A serialization that fails\<close>

lemma write_frame_outcome_open:
  "(g3file s' = None \<longleftrightarrow> g3file s = None) \<Longrightarrow>
   fst (write_frame_to_file a b s') = fst (write_frame_to_file a b s)"
  by (auto simp: write_frame_to_file_def split: list.splits sum.splits option.splits)

lemma flush_buffers_empty:
  "map_of (buffers s) k = Some [] \<Longrightarrow>
   map_of (buffers (snd (flush_buffers kvs s))) k = Some []"
proof (induction kvs s rule: flush_buffers.induct)
  case (1 s)
  then show ?case by simp
next
  case (2 k' v' kvs s)
  show ?case
  proof (cases "v' \<noteq> []")
    case False
    with 2 show ?thesis by simp
  next
    case True
    show ?thesis
    proof (cases rule: write_frame_cases [of k' "List v'" s])
      case (failed e)
      with True 2(3) show ?thesis by simp
    next
      case (written agent f tods tss w)
      have "map_of (buffers (snd (flush_buffers kvs
              (s\<lparr> g3file := Some (w @ [Housekeeping agent f tods tss]),
                   buffers := AList.update k' [] (buffers s) \<rparr>)))) k = Some []"
        using 2(1) [OF True written(4) [symmetric] refl] 2(3)
        by (simp add: AList.update_conv')
      with True written(4) show ?thesis by simp
    qed
  qed
qed

lemma flush_buffers_done:
  "fst (flush_buffers kvs s) = Inr () \<Longrightarrow> (k, v) \<in> set kvs \<Longrightarrow> v \<noteq> [] \<Longrightarrow>
   map_of (buffers (snd (flush_buffers kvs s))) k = Some []"
proof (induction kvs s rule: flush_buffers.induct)
  case (1 s)
  then show ?case by simp
next
  case (2 k' v' kvs s)
  show ?case
  proof (cases "v' \<noteq> []")
    case False
    with 2(2) [OF False] 2(3,4,5) show ?thesis by auto
  next
    case True
    show ?thesis
    proof (cases rule: write_frame_cases [of k' "List v'" s])
      case (failed e)
      with True 2(3) show ?thesis by simp
    next
      case (written agent f tods tss w)
      define s' where "s' = s\<lparr> g3file := Some (w @ [Housekeeping agent f tods tss]),
                               buffers := AList.update k' [] (buffers s) \<rparr>"
      have eq: "flush_buffers ((k', v') # kvs) s = flush_buffers kvs s'"
        using True written(4) by (simp add: s'_def)
      show ?thesis
      proof (cases "k = k'")
        case True
        have "map_of (buffers s') k = Some []"
          using True by (simp add: s'_def AList.update_conv')
        then show ?thesis unfolding eq by (rule flush_buffers_empty)
      next
        case False
        with 2(4) have "(k, v) \<in> set kvs" by simp
        moreover have "fst (flush_buffers kvs s') = Inr ()" using 2(3) unfolding eq .
        ultimately show ?thesis
          unfolding eq
          using 2(1) [OF True written(4) [symmetric] refl] 2(5) by (simp add: s'_def)
      qed
    qed
  qed
qed

text \<open>The loop of \<open>end_file\<close> does not get past a buffer whose serialization raises: the
  buffer is still there when the loop is left.\<close>

lemma flush_buffers_keeps:
  assumes "map_of (buffers s) k = Some buf" and "buf \<noteq> []"
    and "fst (write_frame_to_file k (List buf) s) \<noteq> Inr ()"
    and "map_of kvs k = Some buf \<or> k \<notin> fst ` set kvs"
  shows "map_of (buffers (snd (flush_buffers kvs s))) k = Some buf"
  using assms
proof (induction kvs s rule: flush_buffers.induct)
  case (1 s)
  then show ?case by simp
next
  case (2 k' v' kvs s)
  show ?case
  proof (cases "k' = k")
    case True
    with 2(6) have v: "v' = buf" by auto
    obtain e where "write_frame_to_file k (List buf) s = (Inl e, s)"
      using 2(5) by (cases rule: write_frame_cases [of k "List buf" s]) simp_all
    with True v 2(3,4) show ?thesis by simp
  next
    case other: False
    with 2(6) have rest: "map_of kvs k = Some buf \<or> k \<notin> fst ` set kvs" by auto
    show ?thesis
    proof (cases "v' \<noteq> []")
      case False
      with 2(2) [OF _ 2(3,4,5) rest] show ?thesis by simp
    next
      case True
      show ?thesis
      proof (cases rule: write_frame_cases [of k' "List v'" s])
        case (failed e)
        with True 2(3) show ?thesis by simp
      next
        case (written agent f tods tss w)
        define s' where "s' = s\<lparr> g3file := Some (w @ [Housekeeping agent f tods tss]),
                                 buffers := AList.update k' [] (buffers s) \<rparr>"
        have b: "map_of (buffers s') k = Some buf"
          using 2(3) other by (simp add: s'_def AList.update_conv')
        have o: "fst (write_frame_to_file k (List buf) s') \<noteq> Inr ()"
          using 2(5) write_frame_outcome_open [of s' s k "List buf"] written(3)
          by (simp add: s'_def)
        have "map_of (buffers (snd (flush_buffers kvs s'))) k = Some buf"
          using 2(1) [OF True written(4) [symmetric] refl] b 2(4) o rest
          by (simp add: s'_def)
        with True written(4) show ?thesis by (simp add: s'_def)
      qed
    qed
  qed
qed

lemma end_file_keeps:
  assumes "map_of (buffers s) k = Some buf"
    and "fst (write_frame_to_file k (List buf) s) \<noteq> Inr ()"
  shows "map_of (buffers (snd (end_file s))) k = Some buf"
proof (cases "buf = []")
  case True
  with assms(1) show ?thesis by (simp add: end_file_buffers flush_buffers_empty)
next
  case False
  with assms show ?thesis by (simp add: end_file_buffers flush_buffers_keeps)
qed

lemma data_handler_raises:
  assumes "fst (data_handler (data, fd) t s) \<noteq> Inr ()"
  shows "buffers (snd (data_handler (data, fd) t s)) = buffers s
       \<and> g3file (snd (data_handler (data, fd) t s)) = g3file s"
proof (cases rule: data_handler_cases [of s data fd t])
  case passthrough
  with assms show ?thesis
    by (cases rule: write_frame_cases [of "address fd" data s]) simp_all
qed (use assms in simp_all)

text \<open>
  C7.  When the serialization of a buffer raises, the buffer is not cleared.  In the data
  handler the error leaves the handler before l.83-86 are reached: all buffers and the
  file stay as they were.  In \<open>end_file\<close> a buffer whose serialization raises is still in
  the buffer map, with all its samples, when \<open>end_file\<close> is left.
\<close>

theorem failed_flush_keeps_buffer:
  "(fst (data_handler (data, fd) t s) \<noteq> Inr () \<longrightarrow>
      buffers (snd (data_handler (data, fd) t s)) = buffers s
    \<and> g3file (snd (data_handler (data, fd) t s)) = g3file s)
   \<and> (map_of (buffers s) k = Some buf \<and> fst (write_frame_to_file k (List buf) s) \<noteq> Inr () \<longrightarrow>
        map_of (buffers (snd (end_file s))) k = Some buf
      \<and> (buf \<noteq> [] \<longrightarrow> fst (end_file s) \<noteq> Inr ()))"
proof (intro conjI impI)
  assume "fst (data_handler (data, fd) t s) \<noteq> Inr ()"
  then show "buffers (snd (data_handler (data, fd) t s)) = buffers s"
    and "g3file (snd (data_handler (data, fd) t s)) = g3file s"
    by (simp_all add: data_handler_raises)
next
  assume a: "map_of (buffers s) k = Some buf \<and> fst (write_frame_to_file k (List buf) s) \<noteq> Inr ()"
  then show keeps: "map_of (buffers (snd (end_file s))) k = Some buf"
    by (simp add: end_file_keeps)
  assume ne: "buf \<noteq> []"
  show "fst (end_file s) \<noteq> Inr ()"
  proof
    assume ok: "fst (end_file s) = Inr ()"
    have "fst (flush_buffers (buffers s) s) = Inr ()"
      using ok by (auto simp: end_file_def split: prod.splits sum.splits option.splits)
    moreover have "(k, buf) \<in> set (buffers s)" using a by (simp add: map_of_SomeD)
    ultimately have "map_of (buffers (snd (flush_buffers (buffers s) s))) k = Some []"
      using ne by (rule flush_buffers_done)
    with keeps ne show False by (simp add: end_file_buffers)
  qed
qed

theorem failed_flush_keeps_buffer_witness:
  "data_handler (Dict [(''ch1'', (1.2, 12))], therm False 1) 1.2
        (stalled\<lparr> buffers := [(''dev1.feeds.therm'', [Dict [(''ch1'', (0, 10))]])],
                  buffer_start_times := [(''dev1.feeds.therm'', 0)] \<rparr>)
     = (Inl TypeError,
        stalled\<lparr> buffers := [(''dev1.feeds.therm'', [Dict [(''ch1'', (0, 10))]])],
                  buffer_start_times := [(''dev1.feeds.therm'', 0)] \<rparr>)
   \<and> end_file (stalled\<lparr> buffers := [(''dev1.feeds.therm'', [Dict [(''ch1'', (0, 10))]])],
                         buffer_start_times := [(''dev1.feeds.therm'', 0)] \<rparr>)
     = (Inl TypeError,
        stalled\<lparr> buffers := [(''dev1.feeds.therm'', [Dict [(''ch1'', (0, 10))]])],
                  buffer_start_times := [(''dev1.feeds.therm'', 0)] \<rparr>)"
  using failed_flush_keeps_buffer
    [where s = "stalled\<lparr> buffers := [(''dev1.feeds.therm'', [Dict [(''ch1'', (0, 10))]])],
                          buffer_start_times := [(''dev1.feeds.therm'', 0)] \<rparr>"
       and data = "Dict [(''ch1'', (1.2, 12))]" and fd = "therm False 1" and t = "1.2"
       and k = "''dev1.feeds.therm''" and buf = "[Dict [(''ch1'', (0, 10))]]"]
  by (simp add: stalled_eq therm_def split_dev1 add_val_def data_handler_def end_file_def
      write_frame_to_file_def float_sub_gt_def round_double_def round_small.simps
      round_even_def Let_def)

section \<open>Parameters\<close>




section \<open>Empty buffers\<close>

lemma flush_buffers_skips:
  "flush_buffers kvs s = flush_buffers (filter (\<lambda>kv. snd kv \<noteq> []) kvs) s"
proof (induction kvs s rule: flush_buffers.induct)
  case (1 s)
  show ?case by simp
next
  case (2 k v kvs s)
  show ?case
  proof (cases "v \<noteq> []")
    case False
    with 2(2) show ?thesis by simp
  next
    case True
    show ?thesis
    proof (cases rule: write_frame_cases [of k "List v" s])
      case (failed e)
      with True show ?thesis by simp
    next
      case (written agent f tods tss w)
      with True 2(1) [OF True written(4) [symmetric] refl] show ?thesis by simp
    qed
  qed
qed

lemma write_frame_changes_file:
  "fst (write_frame_to_file a b s) = Inr () \<Longrightarrow>
   g3file (snd (write_frame_to_file a b s)) \<noteq> g3file s"
  by (cases rule: write_frame_cases [of a b s]) simp_all

text \<open>
  C4.  The claim does not hold as it stands.  A buffer that is empty gets the current
  time as its start time, so the elapsed time is 0; with a negative \<open>buffer_time\<close> the
  test of l.81 holds all the same and the empty buffer is serialized: the file receives a
  frame without timestreams.  And the handler has a third call of the serializer, for
  feeds marked \<open>buffered\<close> (l.73), which passes on the batch as it came, an empty one too.
\<close>

theorem serializer_nonempty_counterexample:
  "data_handler (Dict [(''ch1'', (0, 10))], therm False (- 1)) 0 recording
     = (Inr (), recording\<lparr> g3file := Some [Housekeeping ''dev1'' ''therm'' [] []],
                           buffer_start_times := [(''dev1.feeds.therm'', 0)],
                           buffers := [(''dev1.feeds.therm'', [Dict [(''ch1'', (0, 10))]])] \<rparr>)
   \<and> data_handler (List [], therm True 600) 0 recording
     = (Inr (), recording\<lparr> g3file := Some [Housekeeping ''dev1'' ''therm'' [] []] \<rparr>)"
  by (simp add: recording_eq therm_def split_dev1 data_handler_def write_frame_to_file_def
      float_sub_gt_same Let_def)

text \<open>
  C4, amended.  The two flushes of buffers do not serialize an empty buffer when
  \<open>buffer_time\<close> is not negative.  In the handler, a sample that finds its buffer empty
  is appended and nothing is written, whatever the time.  In \<open>end_file\<close> the entries with
  an empty buffer are skipped: the loop does what it does on the non-empty entries
  alone, and nothing when all buffers are empty.  (A call of the serializer that returns
  has added a frame to the file, so a file that is unchanged has seen no such call.)
\<close>

theorem serializer_nonempty:
  "(aggregate s \<and> \<not> buffered fd \<and> map_of (buffers s) (address fd) = Some []
      \<and> 0 \<le> buffer_time fd \<longrightarrow>
      fst (data_handler (data, fd) t s) = Inr ()
    \<and> g3file (snd (data_handler (data, fd) t s)) = g3file s
    \<and> map_of (buffers (snd (data_handler (data, fd) t s))) (address fd) = Some [data])
   \<and> flush_buffers kvs s = flush_buffers (filter (\<lambda>kv. snd kv \<noteq> []) kvs) s
   \<and> ((\<forall>kv \<in> set (buffers s). snd kv = []) \<longrightarrow> flush_buffers (buffers s) s = (Inr (), s))
   \<and> (fst (write_frame_to_file a b s) = Inr () \<longrightarrow>
        g3file (snd (write_frame_to_file a b s)) \<noteq> g3file s)"
proof (intro conjI impI)
  assume a: "aggregate s \<and> \<not> buffered fd \<and> map_of (buffers s) (address fd) = Some []
      \<and> 0 \<le> buffer_time fd"
  then have h: "data_handler (data, fd) t s
      = (Inr (), s\<lparr> buffer_start_times := AList.update (address fd) t (buffer_start_times s),
                    buffers := AList.map_entry (address fd) (\<lambda>b. b @ [data]) (buffers s) \<rparr>)"
    by (simp add: data_handler_def Let_def AList.update_conv' float_sub_gt_same)
  show "fst (data_handler (data, fd) t s) = Inr ()"
    and "g3file (snd (data_handler (data, fd) t s)) = g3file s"
    and "map_of (buffers (snd (data_handler (data, fd) t s))) (address fd) = Some [data]"
    using a by (simp_all add: h AList.map_of_map_entry)
next
  show "flush_buffers kvs s = flush_buffers (filter (\<lambda>kv. snd kv \<noteq> []) kvs) s"
    by (rule flush_buffers_skips)
next
  assume "\<forall>kv \<in> set (buffers s). snd kv = []"
  then have "filter (\<lambda>kv. snd kv \<noteq> []) (buffers s) = []"
    by (simp add: filter_empty_conv)
  then show "flush_buffers (buffers s) s = (Inr (), s)"
    using flush_buffers_skips [of "buffers s" s] by simp
next
  assume "fst (write_frame_to_file a b s) = Inr ()"
  then show "g3file (snd (write_frame_to_file a b s)) \<noteq> g3file s"
    by (rule write_frame_changes_file)
qed

theorem serializer_nonempty_witness:
  "data_handler (Dict [(''ch1'', (0, 10))], therm False 1) 0 recording
     = (Inr (), recording\<lparr> buffer_start_times := [(''dev1.feeds.therm'', 0)],
                           buffers := [(''dev1.feeds.therm'', [Dict [(''ch1'', (0, 10))]])] \<rparr>)
   \<and> flush_buffers (buffers recording) recording = (Inr (), recording)"
  using serializer_nonempty
    [where s = recording and fd = "therm False 1" and data = "Dict [(''ch1'', (0, 10))]"
       and t = 0 and kvs = "[]" and a = "''dev1.feeds.therm''" and b = "List []"]
  by (simp add: recording_eq therm_def data_handler_def float_sub_gt_same Let_def)

end
